theory Spec2Isabelle
  imports Complex_Main
begin

section \<open>The spatial slicer of sims\_maf (baseSpatialSlicer.py)\<close>

text \<open>
  The embedding follows \<^verbatim>\<open>BaseSpatialSlicer\<close>. numpy's float64 values are read as
  real numbers (rounding is not part of the model), Python integers as \<open>int\<close> where
  they can be negative and as \<open>nat\<close> where they are counts or positions, numpy
  arrays and Python lists as HOL lists, and every exception as a value of \<open>error\<close>.
\<close>

subsection \<open>Errors\<close>

datatype error =
    ValueError string
  | IndexError
  | TypeError
  | KeyError string
  | AttributeError string

subsection \<open>Coordinate transforms\<close>

text \<open>\<^verbatim>\<open>np.radians\<close> and \<^verbatim>\<open>np.degrees\<close>.\<close>

definition radians :: "real \<Rightarrow> real" where
  "radians d = d * pi / 180"

definition degrees :: "real \<Rightarrow> real" where
  "degrees r = r * 180 / pi"

text \<open>
  \<^verbatim>\<open>_treexyz(ra, dec)\<close> on scalar arguments:
  \<^verbatim>\<open>x = np.cos(dec) * np.cos(ra); y = np.cos(dec) * np.sin(ra); z = np.sin(dec)\<close>.
\<close>

definition treexyz :: "real \<Rightarrow> real \<Rightarrow> real \<times> real \<times> real" where
  "treexyz ra dec =
     (let x = cos dec * cos ra;
          y = cos dec * sin ra;
          z = sin dec
      in (x, y, z))"

text \<open>
  The same function on arrays. numpy multiplies elementwise and broadcasts an array of
  length one against the other operand; two arrays of different lengths, neither of
  length one, raise \<^verbatim>\<open>ValueError\<close>.
\<close>

definition np_mul :: "real list \<Rightarrow> real list \<Rightarrow> error + real list" where
  "np_mul xs ys =
     (if length xs = length ys then Inr (map2 (*) xs ys)
      else if length xs = 1 then Inr (map (\<lambda>y. hd xs * y) ys)
      else if length ys = 1 then Inr (map (\<lambda>x. x * hd ys) xs)
      else Inl (ValueError ''operands could not be broadcast together''))"

definition treexyz_array ::
  "real list \<Rightarrow> real list \<Rightarrow> error + (real list \<times> real list \<times> real list)" where
  "treexyz_array ra dec =
     (case np_mul (map cos dec) (map cos ra) of
        Inl e \<Rightarrow> Inl e
      | Inr x \<Rightarrow>
          (case np_mul (map cos dec) (map sin ra) of
             Inl e \<Rightarrow> Inl e
           | Inr y \<Rightarrow> Inr (x, y, map sin dec)))"

subsection \<open>Python values, indexing and dictionaries\<close>

text \<open>
  The values kept in the \<^verbatim>\<open>slicePoints\<close> dictionary and handed to metrics:
  \<^verbatim>\<open>None\<close>, numbers, strings and (nested) arrays.
\<close>

datatype pyval = PyNone | Num real | Str string | Arr "pyval list"

definition np_array :: "real list \<Rightarrow> pyval" where
  "np_array xs = Arr (map Num xs)"

text \<open>\<^verbatim>\<open>np.shape\<close>: the empty tuple for a scalar, the dimensions of an array.\<close>

fun np_shape :: "pyval \<Rightarrow> nat list" where
  "np_shape (Arr []) = [0]"
| "np_shape (Arr (x # xs)) = Suc (length xs) # np_shape x"
| "np_shape v = []"

text \<open>
  \<^verbatim>\<open>xs[i]\<close> on a Python list or a numpy array with an integer: a negative
  index counts from the end, anything outside \<^verbatim>\<open>[-len, len)\<close> raises IndexError.
\<close>

definition py_index :: "'a list \<Rightarrow> int \<Rightarrow> error + 'a" where
  "py_index xs i =
     (if 0 \<le> i \<and> i < int (length xs) then Inr (xs ! nat i)
      else if - int (length xs) \<le> i \<and> i < 0 then Inr (xs ! nat (int (length xs) + i))
      else Inl IndexError)"

definition subscript :: "pyval \<Rightarrow> int \<Rightarrow> error + pyval" where
  "subscript v i =
     (case v of
        Arr xs \<Rightarrow> py_index xs i
      | Str cs \<Rightarrow> (case py_index cs i of Inl e \<Rightarrow> Inl e | Inr c \<Rightarrow> Inr (Str [c]))
      | Num r \<Rightarrow> Inl IndexError
      | PyNone \<Rightarrow> Inl TypeError)"

text \<open>A value used as a float by \<^verbatim>\<open>np.cos\<close>/\<^verbatim>\<open>np.sin\<close>.\<close>

definition num_of :: "pyval \<Rightarrow> error + real" where
  "num_of v = (case v of Num r \<Rightarrow> Inr r | _ \<Rightarrow> Inl TypeError)"

text \<open>
  A value used as a one-dimensional float array. The slicer's subclasses store such
  arrays under \<^verbatim>\<open>'ra'\<close> and \<^verbatim>\<open>'dec'\<close>; for any other value the numpy
  calls fail, which the model reports as TypeError.
\<close>

fun as_array :: "pyval \<Rightarrow> error + real list" where
  "as_array (Arr vs) =
     (if list_all (\<lambda>v. case v of Num r \<Rightarrow> True | _ \<Rightarrow> False) vs
      then Inr (map (\<lambda>v. case v of Num r \<Rightarrow> r | _ \<Rightarrow> 0) vs)
      else Inl TypeError)"
| "as_array v = Inl TypeError"

text \<open>\<^verbatim>\<open>arr[idx]\<close> with an integer index array (numpy fancy indexing).\<close>

definition take_idx :: "'a list \<Rightarrow> nat list \<Rightarrow> error + 'a list" where
  "take_idx xs idx =
     (if list_all (\<lambda>i. i < length xs) idx then Inr (map (\<lambda>i. xs ! i) idx)
      else Inl IndexError)"

text \<open>\<^verbatim>\<open>np.where(mask)[0]\<close>: the positions where the mask holds, ascending.\<close>

definition np_where :: "bool list \<Rightarrow> nat list" where
  "np_where bs = filter (\<lambda>i. bs ! i) [0..<length bs]"

text \<open>A dictionary in insertion order; \<^verbatim>\<open>d[k]\<close> raises KeyError on a missing key.\<close>

type_synonym pydict = "(string \<times> pyval) list"

definition getitem :: "pydict \<Rightarrow> string \<Rightarrow> error + pyval" where
  "getitem d k = (case map_of d k of None \<Rightarrow> Inl (KeyError k) | Some v \<Rightarrow> Inr v)"

text \<open>Reading an instance attribute that may not have been assigned yet.\<close>

definition attr :: "string \<Rightarrow> 'a option \<Rightarrow> error + 'a" where
  "attr name v = (case v of None \<Rightarrow> Inl (AttributeError name) | Some x \<Rightarrow> Inr x)"

text \<open>Sequencing of fallible steps, and a loop whose body may raise.\<close>

definition ebind :: "error + 'a \<Rightarrow> ('a \<Rightarrow> error + 'b) \<Rightarrow> error + 'b" where
  "ebind m f = (case m of Inl e \<Rightarrow> Inl e | Inr x \<Rightarrow> f x)"

fun foldE :: "('a \<Rightarrow> 's \<Rightarrow> error + 's) \<Rightarrow> 'a list \<Rightarrow> 's \<Rightarrow> error + 's" where
  "foldE f [] s = Inr s"
| "foldE f (x # xs) s = (case f x s of Inl e \<Rightarrow> Inl e | Inr s' \<Rightarrow> foldE f xs s')"

subsection \<open>The k-d tree (scipy.spatial.cKDTree)\<close>

text \<open>
  The tree is an external library. Its contract: it is built over a list of points
  with a leaf size of at least one, and \<^verbatim>\<open>query_ball_point(c, r)\<close> returns the
  positions of the points at Euclidean distance at most \<open>r\<close> from \<open>c\<close>, each once,
  in an order that scipy leaves open (ascending here).
\<close>

type_synonym point = "real \<times> real \<times> real"

record kdtree =
  tree_data :: "point list"
  tree_leafsize :: int

definition kdtree_new :: "point list \<Rightarrow> int \<Rightarrow> error + kdtree" where
  "kdtree_new data leaf =
     (if leaf < 1 then Inl (ValueError ''leafsize must be at least 1'')
      else Inr \<lparr>tree_data = data, tree_leafsize = leaf\<rparr>)"

definition euclid :: "point \<Rightarrow> point \<Rightarrow> real" where
  "euclid p q =
     (case p of (x1, y1, z1) \<Rightarrow> case q of (x0, y0, z0) \<Rightarrow>
        sqrt ((x1 - x0)\<^sup>2 + (y1 - y0)\<^sup>2 + (z1 - z0)\<^sup>2))"

definition query_ball_point :: "kdtree \<Rightarrow> point \<Rightarrow> real \<Rightarrow> nat list" where
  "query_ball_point t c r =
     filter (\<lambda>i. euclid (tree_data t ! i) c \<le> r) [0..<length (tree_data t)]"

subsection \<open>The slicer and its inputs\<close>

text \<open>
  \<^verbatim>\<open>simData\<close> is a numpy record array: one row per pointing. The configured column
  names select the fields; the rows below carry the default columns.
\<close>

record simrow =
  fieldRA :: real
  fieldDec :: real
  rotSkyPos :: real
  observationStartMJD :: real

text \<open>\<^verbatim>\<open>ObservationMetaData(pointingRA, pointingDec, rotSkyPos, mjd)\<close>.\<close>

record obs_metadata =
  pointingRA :: real
  pointingDec :: real
  md_rotSkyPos :: real
  md_mjd :: real

text \<open>The \<^verbatim>\<open>chipNames\<close> option: the string \<^verbatim>\<open>'all'\<close> or a list of chips to accept.\<close>

datatype chips = AllChips | ChipList "string list"

text \<open>
  The instance. \<^verbatim>\<open>rad\<close>, \<^verbatim>\<open>camera\<close>, \<^verbatim>\<open>epoch\<close>, \<^verbatim>\<open>opsimtree\<close>,
  \<^verbatim>\<open>sliceLookup\<close> and \<^verbatim>\<open>chipNames\<close> are attributes that exist only once a method
  has assigned them; \<^verbatim>\<open>nslice\<close> is \<^verbatim>\<open>None\<close> until a subclass sets it.
  \<^verbatim>\<open>cacheSize\<close> comes from the base slicer; \<open>warnings\<close> collects what
  \<^verbatim>\<open>warnings.warn\<close> is given.
\<close>

record 'cam slicer =
  latLonDeg :: bool
  useCamera :: bool
  radius :: real
  leafsize :: int
  chipsToUse :: chips
  cacheSize :: nat
  slicePoints :: pydict
  nslice :: "nat option"
  rad :: "real option"
  camera :: "'cam option"
  epoch :: "real option"
  opsimtree :: "kdtree option"
  sliceLookup :: "nat list list option"
  chipNames :: "string option list list option"
  warnings :: "string list"

text \<open>
  \<^verbatim>\<open>_chipNameFromRaDec(ra, dec, epoch=, camera=, obs_metadata=)\<close> of
  \<^verbatim>\<open>lsst.sims.coordUtils\<close>: an external function, a parameter of the model. It gives
  a chip name or \<^verbatim>\<open>None\<close> for each candidate position.
\<close>

type_synonym 'cam chip_lookup =
  "real list \<Rightarrow> real list \<Rightarrow> real \<Rightarrow> 'cam \<Rightarrow> obs_metadata \<Rightarrow> string option list"

subsection \<open>\<^verbatim>\<open>_setRad\<close>\<close>

definition setRad :: "'cam slicer \<Rightarrow> real \<Rightarrow> 'cam slicer" where
  "setRad s radius_deg =
     (case (1, 0, 0) of (x0, y0, z0) \<Rightarrow>
      case treexyz (radians radius_deg) 0 of (x1, y1, z1) \<Rightarrow>
        s\<lparr>rad := Some (sqrt ((x1 - x0)\<^sup>2 + (y1 - y0)\<^sup>2 + (z1 - z0)\<^sup>2))\<rparr>)"

subsection \<open>\<^verbatim>\<open>_buildTree\<close>\<close>

definition buildTree ::
  "'cam slicer \<Rightarrow> real list \<Rightarrow> real list \<Rightarrow> int \<Rightarrow> error + 'cam slicer" where
  "buildTree s simDataRa simDataDec leaf =
     (if list_ex (\<lambda>v. \<bar>v\<bar> > pi * 2.0) simDataRa \<or> list_ex (\<lambda>v. \<bar>v\<bar> > pi * 2.0) simDataDec
      then Inl (ValueError ''Expecting RA and Dec values to be in radians.'')
      else
        ebind (treexyz_array simDataRa simDataDec) (\<lambda>xyz.
          case xyz of (x, y, z) \<Rightarrow>
            let data = zip x (zip y z) in
            if 3 * length data > 0
            then ebind (kdtree_new data leaf) (\<lambda>t. Inr (s\<lparr>opsimtree := Some t\<rparr>))
            else Inl (ValueError ''SimDataRA and Dec should have length greater than 0.'')))"

subsection \<open>\<^verbatim>\<open>_setupLSSTCamera\<close> and \<^verbatim>\<open>_presliceFootprint\<close>\<close>

text \<open>\<open>mapper_camera\<close> stands for \<^verbatim>\<open>LsstSimMapper().camera\<close>.\<close>

definition setupLSSTCamera :: "'cam \<Rightarrow> 'cam slicer \<Rightarrow> 'cam slicer" where
  "setupLSSTCamera mapper_camera s = s\<lparr>camera := Some mapper_camera, epoch := Some 2000.0\<rparr>"

text \<open>
  The body of the inner loop:
  \<^verbatim>\<open>self.sliceLookup[i].append(ind); self.chipNames[i].append(chipName)\<close>.
\<close>

definition lookup_append ::
  "nat \<Rightarrow> nat \<times> string option \<Rightarrow> 'cam slicer \<Rightarrow> error + 'cam slicer" where
  "lookup_append ind ic s =
     (case ic of (i, chipName) \<Rightarrow>
        ebind (attr ''sliceLookup'' (sliceLookup s)) (\<lambda>lk.
          if i < length lk then
            ebind (attr ''chipNames'' (chipNames s)) (\<lambda>cn.
              if i < length cn then
                Inr (s\<lparr>sliceLookup := Some (lk[i := lk ! i @ [ind]]),
                       chipNames := Some (cn[i := cn ! i @ [chipName]])\<rparr>)
              else Inl IndexError)
          else Inl IndexError))"

text \<open>\<^verbatim>\<open>chipName in self.chipsToUse\<close> for a list of chip names.\<close>

definition chip_in :: "string option \<Rightarrow> string list \<Rightarrow> bool" where
  "chip_in c allow = (case c of None \<Rightarrow> False | Some n \<Rightarrow> n \<in> set allow)"

text \<open>The body of the loop over the pointings.\<close>

definition footprint_pointing ::
  "'cam chip_lookup \<Rightarrow> nat \<times> real \<times> real \<times> real \<times> real \<Rightarrow> 'cam slicer \<Rightarrow> error + 'cam slicer" where
  "footprint_pointing chipNameFromRaDec row s =
     (case row of (ind, ra, dec, rot, mjd) \<Rightarrow>
      case treexyz ra dec of (dx, dy, dz) \<Rightarrow>
        ebind (attr ''opsimtree'' (opsimtree s)) (\<lambda>tree.
        ebind (attr ''rad'' (rad s)) (\<lambda>r.
          let hpIndices = query_ball_point tree (dx, dy, dz) r in
          if length hpIndices > 0 then
            let md = \<lparr>pointingRA = degrees ra, pointingDec = degrees dec,
                      md_rotSkyPos = degrees rot, md_mjd = mjd\<rparr> in
            ebind (getitem (slicePoints s) ''ra'') (\<lambda>spra.
            ebind (as_array spra) (\<lambda>ras.
            ebind (take_idx ras hpIndices) (\<lambda>cra.
            ebind (getitem (slicePoints s) ''dec'') (\<lambda>spdec.
            ebind (as_array spdec) (\<lambda>decs.
            ebind (take_idx decs hpIndices) (\<lambda>cdec.
            ebind (attr ''epoch'' (epoch s)) (\<lambda>ep.
            ebind (attr ''camera'' (camera s)) (\<lambda>cam.
              let found = chipNameFromRaDec cra cdec ep cam md in
              ebind (case chipsToUse s of
                       AllChips \<Rightarrow> Inr (found, hpIndices)
                     | ChipList allow \<Rightarrow>
                         let checkedChipNames = map (\<lambda>c. chip_in c allow) found;
                             good = np_where checkedChipNames
                         in ebind (take_idx found good) (\<lambda>cn.
                            ebind (take_idx hpIndices good) (\<lambda>hp. Inr (cn, hp)))) (\<lambda>sel.
              case sel of (cn, hp) \<Rightarrow>
                let good = np_where (map (\<lambda>c. c \<noteq> None) cn) in
                ebind (take_idx hp good) (\<lambda>hpOnChip.
                ebind (take_idx cn good) (\<lambda>cng.
                  foldE (lookup_append ind) (zip hpOnChip cng) s)))))))))))
          else Inr s)))"

definition presliceFootprint ::
  "'cam chip_lookup \<Rightarrow> 'cam slicer \<Rightarrow> simrow list \<Rightarrow> error + 'cam slicer" where
  "presliceFootprint chipNameFromRaDec s simData =
     ebind (case nslice s of None \<Rightarrow> Inl TypeError | Some n \<Rightarrow> Inr n) (\<lambda>n.
       let s1 = s\<lparr>sliceLookup := Some (replicate n []), chipNames := Some (replicate n [])\<rparr> in
       ebind (getitem (slicePoints s1) ''ra'') (\<lambda>spra.
       ebind (getitem (slicePoints s1) ''dec'') (\<lambda>spdec.
       ebind (as_array spra) (\<lambda>ras.
       ebind (as_array spdec) (\<lambda>decs.
       ebind (buildTree s1 ras decs (leafsize s1)) (\<lambda>s2.
         let lat = (if latLonDeg s2 then map radians (map fieldDec simData)
                    else map fieldDec simData);
             lon = (if latLonDeg s2 then map radians (map fieldRA simData)
                    else map fieldRA simData)
         in foldE (footprint_pointing chipNameFromRaDec)
              (zip [0..<length simData]
                 (zip lon (zip lat (zip (map rotSkyPos simData)
                                        (map observationStartMJD simData)))))
              s2))))))"

subsection \<open>\<^verbatim>\<open>setupSlicer\<close>\<close>

text \<open>
  Modelled from the spec: \<^verbatim>\<open>_runMaps\<close> belongs to the base slicer, whose file is not
  part of the sources at hand. The spec has each map generator take the slice points and
  the observation set and update the slice-point metadata, the generators running in
  order.
\<close>

type_synonym map_generator = "pydict \<Rightarrow> simrow list \<Rightarrow> pydict"

definition runMaps :: "'cam slicer \<Rightarrow> map_generator list \<Rightarrow> simrow list \<Rightarrow> 'cam slicer" where
  "runMaps s maps simData = s\<lparr>slicePoints := fold (\<lambda>m sp. m sp simData) maps (slicePoints s)\<rparr>"

definition setupSlicer ::
  "'cam chip_lookup \<Rightarrow> 'cam \<Rightarrow> 'cam slicer \<Rightarrow> simrow list \<Rightarrow> map_generator list option
     \<Rightarrow> error + 'cam slicer" where
  "setupSlicer chipNameFromRaDec mapper_camera s simData maps =
     (let s1 = (case maps of
                  None \<Rightarrow> s
                | Some ms \<Rightarrow>
                    runMaps
                      (if cacheSize s \<noteq> 0 \<and> length ms > 0
                       then s\<lparr>warnings := warnings s @
                              [''Warning:  Loading maps but cache on.'' @
                               ''Should probably set useCache=False in slicer.'']\<rparr>
                       else s)
                      ms simData);
          s2 = setRad s1 (radius s1)
      in if useCamera s2 then
           presliceFootprint chipNameFromRaDec (setupLSSTCamera mapper_camera s2) simData
         else if latLonDeg s2 then
           buildTree s2 (map radians (map fieldRA simData)) (map radians (map fieldDec simData))
             (leafsize s2)
         else
           buildTree s2 (map fieldRA simData) (map fieldDec simData) (leafsize s2))"

subsection \<open>The query function \<^verbatim>\<open>_sliceSimData\<close> installed by \<^verbatim>\<open>setupSlicer\<close>\<close>

record slice_result =
  idxs :: "nat list"
  slicePoint :: "string \<rightharpoonup> pyval"

definition chip_val :: "string option \<Rightarrow> pyval" where
  "chip_val c = (case c of None \<Rightarrow> PyNone | Some n \<Rightarrow> Str n)"

text \<open>The body of the loop over the keys of \<^verbatim>\<open>self.slicePoints\<close>.\<close>

definition keyShape :: "pyval \<Rightarrow> nat" where
  "keyShape v = (if length (np_shape v) = 0 then 0 else np_shape v ! 0)"

definition bind_key ::
  "'cam slicer \<Rightarrow> int \<Rightarrow> string \<Rightarrow> (string \<rightharpoonup> pyval) \<Rightarrow> error + (string \<rightharpoonup> pyval)" where
  "bind_key s islice key sp =
     ebind (getitem (slicePoints s) key) (\<lambda>v.
       if Some (keyShape v) = nslice s
       then ebind (subscript v islice) (\<lambda>e. Inr (sp(key \<mapsto> e)))
       else Inr (sp(key \<mapsto> v)))"

text \<open>
  The first half of the body: the indices of the matching observations, with the
  \<^verbatim>\<open>slicePoint\<close> dictionary as it stands before the loop over the keys.
\<close>

definition find_indices :: "'cam slicer \<Rightarrow> int \<Rightarrow> error + (nat list \<times> (string \<rightharpoonup> pyval))" where
  "find_indices s islice =
     (if useCamera s then
        ebind (attr ''sliceLookup'' (sliceLookup s)) (\<lambda>lk.
        ebind (py_index lk islice) (\<lambda>indices.
        ebind (attr ''chipNames'' (chipNames s)) (\<lambda>cn.
        ebind (py_index cn islice) (\<lambda>chips.
          Inr (indices, [''chipNames'' \<mapsto> Arr (map chip_val chips)])))))
      else
        ebind (getitem (slicePoints s) ''ra'') (\<lambda>spra.
        ebind (subscript spra islice) (\<lambda>ra_v.
        ebind (getitem (slicePoints s) ''dec'') (\<lambda>spdec.
        ebind (subscript spdec islice) (\<lambda>dec_v.
        ebind (num_of dec_v) (\<lambda>dec.
        ebind (num_of ra_v) (\<lambda>ra.
          case treexyz ra dec of (sx, sy, sz) \<Rightarrow>
            ebind (attr ''opsimtree'' (opsimtree s)) (\<lambda>tree.
            ebind (attr ''rad'' (rad s)) (\<lambda>r.
              Inr (query_ball_point tree (sx, sy, sz) r, Map.empty))))))))))"

definition sliceSimData :: "'cam slicer \<Rightarrow> int \<Rightarrow> error + slice_result" where
  "sliceSimData s islice =
     ebind (find_indices s islice) (\<lambda>found.
       case found of (indices, sp0) \<Rightarrow>
         ebind (foldE (bind_key s islice) (map fst (slicePoints s)) sp0) (\<lambda>sp.
           Inr \<lparr>idxs = indices, slicePoint = sp\<rparr>))"

subsection \<open>A slicer ready to be queried\<close>

text \<open>
  What a successful \<^verbatim>\<open>setupSlicer\<close> leaves behind for a slicer whose subclass has
  set \<^verbatim>\<open>nslice\<close> to \<open>n\<close> and stored \<open>n\<close> coordinates under \<^verbatim>\<open>'ra'\<close> and
  \<^verbatim>\<open>'dec'\<close>: in footprint mode the two tables with \<open>n\<close> entries each, otherwise
  the tree and the chord radius.
\<close>

definition coord_len :: "'cam slicer \<Rightarrow> string \<Rightarrow> nat option" where
  "coord_len s key =
     (case map_of (slicePoints s) key of
        None \<Rightarrow> None
      | Some v \<Rightarrow> (case as_array v of Inl e \<Rightarrow> None | Inr xs \<Rightarrow> Some (length xs)))"

definition queryable :: "'cam slicer \<Rightarrow> nat \<Rightarrow> bool" where
  "queryable s n =
     (nslice s = Some n \<and>
      (if useCamera s then
         (case sliceLookup s of None \<Rightarrow> False | Some lk \<Rightarrow> length lk = n) \<and>
         (case chipNames s of None \<Rightarrow> False | Some cn \<Rightarrow> length cn = n)
       else
         coord_len s ''ra'' = Some n \<and> coord_len s ''dec'' = Some n \<and>
         opsimtree s \<noteq> None \<and> rad s \<noteq> None))"

text \<open>
  The value the loop over the keys stores for a key whose entry is \<open>v\<close>, at an
  index \<open>i\<close> between 0 and \<open>n\<close>.
\<close>

definition bound_value :: "nat \<Rightarrow> int \<Rightarrow> pyval \<Rightarrow> pyval" where
  "bound_value n i v =
     (if keyShape v = n then (case v of Arr vs \<Rightarrow> vs ! nat i | _ \<Rightarrow> v) else v)"

subsection \<open>Invariants of the lookup table\<close>

text \<open>
  A stored chip name is acceptable when it is a name, and a listed one when a list of
  chips is configured.
\<close>

definition chip_ok :: "chips \<Rightarrow> string option \<Rightarrow> bool" where
  "chip_ok allow c =
     (c \<noteq> None \<and> (case allow of AllChips \<Rightarrow> True | ChipList names \<Rightarrow> chip_in c names))"

text \<open>
  One entry of the table, while the pointings before \<open>k\<close> have been processed: the
  two lists are parallel, the observation positions ascend without repetition and are
  below \<open>k\<close>, and every chip name is acceptable.
\<close>

definition entry_ok :: "chips \<Rightarrow> nat \<Rightarrow> nat list \<Rightarrow> string option list \<Rightarrow> bool" where
  "entry_ok allow k xs cs =
     (length xs = length cs \<and> sorted xs \<and> distinct xs \<and> list_all (\<lambda>x. x < k) xs \<and>
      list_all (chip_ok allow) cs)"

text \<open>
  The table while pointing \<open>ind\<close> is being processed: the slice points in \<open>T\<close> are
  still to receive \<open>ind\<close>, the others may already hold it.
\<close>

definition pending_inv :: "nat \<Rightarrow> nat set \<Rightarrow> 'cam slicer \<Rightarrow> bool" where
  "pending_inv ind T s =
     (\<exists>lk cn. sliceLookup s = Some lk \<and> chipNames s = Some cn \<and>
        nslice s = Some (length lk) \<and> length cn = length lk \<and>
        (\<forall>i<length lk. entry_ok (chipsToUse s) (if i \<in> T then ind else Suc ind) (lk ! i) (cn ! i)))"

definition lookup_inv :: "nat \<Rightarrow> 'cam slicer \<Rightarrow> bool" where
  "lookup_inv k s = pending_inv k UNIV s"

text \<open>The loops change nothing but the two tables.\<close>

definition same_config :: "'cam slicer \<Rightarrow> 'cam slicer \<Rightarrow> bool" where
  "same_config s s' = (s' = s\<lparr>sliceLookup := sliceLookup s', chipNames := chipNames s'\<rparr>)"

subsection \<open>A worked example\<close>

text \<open>
  Two slice points on the equator, at longitudes 0 and \<open>\<pi>\<close>, a field of view of 90
  degrees (chord \<open>\<surd>2\<close>), and four pointings in radians. The camera model of the
  example puts longitude 0 on chip R22\_S11 and anything else on R01\_S00, and sees
  nothing at MJD 0; only R22\_S11 is switched on.
\<close>

definition example_chip_lookup :: "unit chip_lookup" where
  "example_chip_lookup ras decs ep cam md =
     map (\<lambda>ra. if md_mjd md = 0 then None
               else if ra = 0 then Some ''R22_S11'' else Some ''R01_S00'') ras"

definition example_slicer :: "unit slicer" where
  "example_slicer =
     \<lparr>latLonDeg = False, useCamera = True, radius = 90, leafsize = 100,
      chipsToUse = ChipList [''R22_S11''], cacheSize = 0,
      slicePoints = [(''sid'', np_array [0, 1]), (''ra'', np_array [0, pi]),
                     (''dec'', np_array [0, 0]), (''bins'', np_array [1, 2, 3])],
      nslice = Some 2, rad = Some (sqrt 2), camera = Some (), epoch = Some 2000,
      opsimtree = None, sliceLookup = None, chipNames = None, warnings = []\<rparr>"

definition example_simData :: "simrow list" where
  "example_simData =
     [\<lparr>fieldRA = 0, fieldDec = 0, rotSkyPos = 0, observationStartMJD = 1\<rparr>,
      \<lparr>fieldRA = pi, fieldDec = 0, rotSkyPos = 0, observationStartMJD = 1\<rparr>,
      \<lparr>fieldRA = 0, fieldDec = 0, rotSkyPos = 0, observationStartMJD = 0\<rparr>,
      \<lparr>fieldRA = 0, fieldDec = 0, rotSkyPos = 0, observationStartMJD = 2\<rparr>]"

definition example_built :: "unit slicer" where
  "example_built =
     example_slicer
       \<lparr>opsimtree := Some \<lparr>tree_data = [(1, 0, 0), (-1, 0, 0)], tree_leafsize = 100\<rparr>,
        sliceLookup := Some [[0, 3], []],
        chipNames := Some [[Some ''R22_S11'', Some ''R22_S11''], []]\<rparr>"

section \<open>Coordinate transforms and index construction\<close>

lemma chord_sq: "(cos t - 1)\<^sup>2 + (sin t)\<^sup>2 = 2 - 2 * cos (t::real)"
proof -
  have "(cos t - 1)\<^sup>2 + (sin t)\<^sup>2 = ((sin t)\<^sup>2 + (cos t)\<^sup>2) + 1 - 2 * cos t"
    by (simp add: power2_eq_square algebra_simps)
  then show ?thesis by simp
qed

lemma rad_setRad: "rad (setRad s r) = Some (sqrt (2 - 2 * cos (radians r)))"
  using chord_sq [of "radians r"] by (simp add: setRad_def treexyz_def)




lemma out_of_range_iff:
  "list_ex (\<lambda>v. \<bar>v\<bar> > pi * 2.0) xs \<longleftrightarrow> (\<exists>v\<in>set xs. \<bar>v\<bar> > 2 * pi)"
  by (simp add: list_ex_iff mult.commute)

text \<open>
  C8. \<^verbatim>\<open>_buildTree\<close> raises the "expecting radians" ValueError whenever some
  longitude or latitude exceeds \<open>2\<pi>\<close> in absolute value, and never raises it for
  values that all lie in \<open>[-2\<pi>, 2\<pi>]\<close>.
\<close>

theorem buildTree_range_check:
  "((\<exists>v\<in>set ra. \<bar>v\<bar> > 2 * pi) \<or> (\<exists>v\<in>set dec. \<bar>v\<bar> > 2 * pi) \<longrightarrow>
      buildTree s ra dec leaf = Inl (ValueError ''Expecting RA and Dec values to be in radians.'')) \<and>
   ((\<forall>v\<in>set ra. \<bar>v\<bar> \<le> 2 * pi) \<and> (\<forall>v\<in>set dec. \<bar>v\<bar> \<le> 2 * pi) \<longrightarrow>
      buildTree s ra dec leaf \<noteq> Inl (ValueError ''Expecting RA and Dec values to be in radians.''))"
proof (intro conjI impI)
  assume "(\<exists>v\<in>set ra. \<bar>v\<bar> > 2 * pi) \<or> (\<exists>v\<in>set dec. \<bar>v\<bar> > 2 * pi)"
  then have "list_ex (\<lambda>v. \<bar>v\<bar> > pi * 2.0) ra \<or> list_ex (\<lambda>v. \<bar>v\<bar> > pi * 2.0) dec"
    by (simp only: out_of_range_iff)
  then show "buildTree s ra dec leaf
             = Inl (ValueError ''Expecting RA and Dec values to be in radians.'')"
    unfolding buildTree_def by (simp only: if_True)
next
  assume h: "(\<forall>v\<in>set ra. \<bar>v\<bar> \<le> 2 * pi) \<and> (\<forall>v\<in>set dec. \<bar>v\<bar> \<le> 2 * pi)"
  have "\<not> (\<exists>v\<in>set ra. \<bar>v\<bar> > 2 * pi)" "\<not> (\<exists>v\<in>set dec. \<bar>v\<bar> > 2 * pi)"
    using h by (auto simp: not_less)
  then have ok: "\<not> (list_ex (\<lambda>v. \<bar>v\<bar> > pi * 2.0) ra \<or> list_ex (\<lambda>v. \<bar>v\<bar> > pi * 2.0) dec)"
    by (simp only: out_of_range_iff) simp
  show "buildTree s ra dec leaf
        \<noteq> Inl (ValueError ''Expecting RA and Dec values to be in radians.'')"
    unfolding buildTree_def
    by (simp only: ok if_False)
       (simp add: ebind_def treexyz_array_def np_mul_def kdtree_new_def Let_def
             split: sum.splits prod.splits)
qed

theorem buildTree_range_check_witness:
  "buildTree example_slicer [10] [0] 100
     = Inl (ValueError ''Expecting RA and Dec values to be in radians.'') \<and>
   buildTree example_slicer [0] [0] 100
     \<noteq> Inl (ValueError ''Expecting RA and Dec values to be in radians.'')"
proof -
  have "2 * pi < 10" using pi_less_4 by simp
  then have a: "(\<exists>v\<in>set [10::real]. \<bar>v\<bar> > 2 * pi) \<or> (\<exists>v\<in>set [0::real]. \<bar>v\<bar> > 2 * pi)"
    by simp
  have b: "(\<forall>v\<in>set [0::real]. \<bar>v\<bar> \<le> 2 * pi) \<and> (\<forall>v\<in>set [0::real]. \<bar>v\<bar> \<le> 2 * pi)"
    by simp
  show ?thesis
    using buildTree_range_check [of "[10]" "[0]" example_slicer 100]
      buildTree_range_check [of "[0]" "[0]" example_slicer 100] a b
    by blast
qed

section \<open>The footprint lookup table\<close>

lemma ebind_Inr: "ebind m f = Inr y \<longleftrightarrow> (\<exists>x. m = Inr x \<and> f x = Inr y)"
  by (cases m) (simp_all add: ebind_def)

lemma attr_Inr: "attr name v = Inr x \<longleftrightarrow> v = Some x"
  by (cases v) (simp_all add: attr_def)

lemma same_config_refl: "same_config s s"
  by (simp add: same_config_def)

lemma same_config_trans: "same_config s s1 \<Longrightarrow> same_config s1 s2 \<Longrightarrow> same_config s s2"
  unfolding same_config_def
proof -
  assume a: "s1 = s\<lparr>sliceLookup := sliceLookup s1, chipNames := chipNames s1\<rparr>"
    and b: "s2 = s1\<lparr>sliceLookup := sliceLookup s2, chipNames := chipNames s2\<rparr>"
  have "s2 = (s\<lparr>sliceLookup := sliceLookup s1, chipNames := chipNames s1\<rparr>)
               \<lparr>sliceLookup := sliceLookup s2, chipNames := chipNames s2\<rparr>"
    using a b by simp
  then show "s2 = s\<lparr>sliceLookup := sliceLookup s2, chipNames := chipNames s2\<rparr>"
    by simp
qed

lemma same_config_fields:
  assumes "same_config s s'"
  shows "chipsToUse s' = chipsToUse s" "nslice s' = nslice s" "slicePoints s' = slicePoints s"
    "opsimtree s' = opsimtree s" "rad s' = rad s"
proof -
  have e: "s' = s\<lparr>sliceLookup := sliceLookup s', chipNames := chipNames s'\<rparr>"
    using assms by (simp add: same_config_def)
  show "chipsToUse s' = chipsToUse s" by (subst e) simp
  show "nslice s' = nslice s" by (subst e) simp
  show "slicePoints s' = slicePoints s" by (subst e) simp
  show "opsimtree s' = opsimtree s" by (subst e) simp
  show "rad s' = rad s" by (subst e) simp
qed

lemma entry_ok_mono: "entry_ok allow k xs cs \<Longrightarrow> k \<le> k' \<Longrightarrow> entry_ok allow k' xs cs"
  by (auto simp: entry_ok_def list_all_iff)

lemma entry_ok_append:
  "entry_ok allow ind xs cs \<Longrightarrow> chip_ok allow c \<Longrightarrow> entry_ok allow (Suc ind) (xs @ [ind]) (cs @ [c])"
  by (auto simp: entry_ok_def list_all_iff sorted_append less_imp_le)

lemma lookup_append_Inr:
  "lookup_append ind (i, c) s = Inr s' \<longleftrightarrow>
     (\<exists>lk cn. sliceLookup s = Some lk \<and> chipNames s = Some cn \<and> i < length lk \<and> i < length cn \<and>
        s' = s\<lparr>sliceLookup := Some (lk[i := lk ! i @ [ind]]),
               chipNames := Some (cn[i := cn ! i @ [c]])\<rparr>)"
  by (auto simp: lookup_append_def ebind_Inr attr_Inr)

lemma lookup_append_inv:
  assumes run: "lookup_append ind (i, c) s = Inr s'"
    and inv: "pending_inv ind (insert i T) s"
    and c: "chip_ok (chipsToUse s) c"
    and fresh: "i \<notin> T"
  shows "pending_inv ind T s' \<and> same_config s s'"
proof -
  from run obtain lk cn where lk: "sliceLookup s = Some lk" and cn: "chipNames s = Some cn"
    and i: "i < length lk" "i < length cn"
    and s': "s' = s\<lparr>sliceLookup := Some (lk[i := lk ! i @ [ind]]),
                     chipNames := Some (cn[i := cn ! i @ [c]])\<rparr>"
    by (auto simp: lookup_append_Inr)
  from inv lk cn have n: "nslice s = Some (length lk)" and len: "length cn = length lk"
    and ent: "\<And>j. j < length lk \<Longrightarrow>
                entry_ok (chipsToUse s) (if j \<in> insert i T then ind else Suc ind) (lk ! j) (cn ! j)"
    by (auto simp: pending_inv_def)
  have "entry_ok (chipsToUse s) (if j \<in> T then ind else Suc ind)
          (lk[i := lk ! i @ [ind]] ! j) (cn[i := cn ! i @ [c]] ! j)" if j: "j < length lk" for j
  proof (cases "j = i")
    case True
    have "entry_ok (chipsToUse s) ind (lk ! i) (cn ! i)" using ent [OF i(1)] by simp
    then have "entry_ok (chipsToUse s) (Suc ind) (lk ! i @ [ind]) (cn ! i @ [c])"
      using c by (rule entry_ok_append)
    then show ?thesis using True i fresh by simp
  next
    case False
    then show ?thesis using ent [OF j] by simp
  qed
  then have "pending_inv ind T s'"
    unfolding pending_inv_def by (simp add: s' n len)
  moreover have "same_config s s'" by (simp add: same_config_def s')
  ultimately show ?thesis ..
qed

lemma inner_loop_inv:
  "foldE (lookup_append ind) ps s = Inr s' \<Longrightarrow> distinct (map fst ps) \<Longrightarrow>
   list_all (\<lambda>p. chip_ok (chipsToUse s) (snd p)) ps \<Longrightarrow>
   pending_inv ind (fst ` set ps) s \<Longrightarrow>
   pending_inv ind {} s' \<and> same_config s s'"
proof (induction ps arbitrary: s)
  case Nil
  then show ?case by (simp add: same_config_refl)
next
  case (Cons p ps)
  obtain i c where p: "p = (i, c)" by (cases p)
  from Cons.prems(1) obtain s1 where s1: "lookup_append ind (i, c) s = Inr s1"
    and rest: "foldE (lookup_append ind) ps s1 = Inr s'"
    by (auto simp: p split: sum.splits)
  have fresh: "i \<notin> fst ` set ps" using Cons.prems(2) by (simp add: p)
  have inv: "pending_inv ind (insert i (fst ` set ps)) s" using Cons.prems(4) by (simp add: p)
  have c: "chip_ok (chipsToUse s) c" using Cons.prems(3) by (simp add: p)
  from lookup_append_inv [OF s1 inv c fresh]
  have i1: "pending_inv ind (fst ` set ps) s1" and c1: "same_config s s1" by simp_all
  have "list_all (\<lambda>p. chip_ok (chipsToUse s1) (snd p)) ps"
    using Cons.prems(3) same_config_fields(1) [OF c1] by simp
  from Cons.IH [OF rest _ this i1] Cons.prems(2)
  have "pending_inv ind {} s'" and "same_config s1 s'" by simp_all
  then show ?case using c1 by (auto intro: same_config_trans)
qed


lemma distinct_np_where: "distinct (np_where bs)"
  by (simp add: np_where_def)

lemma np_where_bound: "i \<in> set (np_where bs) \<Longrightarrow> i < length bs"
  by (simp add: np_where_def)

lemma take_idx_Inr:
  "take_idx xs idx = Inr ys \<longleftrightarrow> (list_all (\<lambda>i. i < length xs) idx \<and> ys = map (\<lambda>i. xs ! i) idx)"
  by (auto simp: take_idx_def)

lemma take_idx_distinct:
  assumes "take_idx xs idx = Inr ys" "distinct xs" "distinct idx"
  shows "distinct ys"
proof -
  have b: "\<forall>i\<in>set idx. i < length xs" and ys: "ys = map (\<lambda>i. xs ! i) idx"
    using assms(1) by (simp_all add: take_idx_Inr list_all_iff)
  have "inj_on (\<lambda>i. xs ! i) (set idx)"
    using assms(2) b by (rule inj_on_nth)
  then show ?thesis using assms(3) by (simp add: ys distinct_map)
qed

lemma map_nth_np_where: "map (\<lambda>i. xs ! i) (np_where (map P xs)) = filter P xs"
proof -
  have "filter (\<lambda>i. map P xs ! i) [0..<length xs] = filter (\<lambda>i. P (xs ! i)) [0..<length xs]"
    by (rule filter_cong) simp_all
  then have "map (\<lambda>i. xs ! i) (np_where (map P xs))
             = map (\<lambda>i. xs ! i) (filter (\<lambda>i. P (xs ! i)) [0..<length xs])"
    by (simp add: np_where_def)
  also have "\<dots> = filter P (map (\<lambda>i. xs ! i) [0..<length xs])"
    by (simp add: filter_map comp_def)
  also have "\<dots> = filter P xs" by (simp add: map_nth)
  finally show ?thesis .
qed

lemma take_idx_np_where: "take_idx xs (np_where (map P xs)) = Inr ys \<Longrightarrow> ys = filter P xs"
  by (simp add: take_idx_Inr map_nth_np_where)

lemma distinct_query_ball_point: "distinct (query_ball_point t c r)"
  by (simp add: query_ball_point_def)

lemma footprint_pointing_Inr:
  assumes "footprint_pointing f (ind, ra, dec, rot, mjd) s = Inr s'"
  shows "s' = s \<or>
         (\<exists>hp cs. distinct hp \<and> list_all (chip_ok (chipsToUse s)) cs \<and>
                   foldE (lookup_append ind) (zip hp cs) s = Inr s')"
proof (cases "s' = s")
  case True
  then show ?thesis by simp
next
  case False
  show ?thesis
  proof (cases "chipsToUse s")
    case AllChips
    from assms False obtain tree r found hpOnChip cng
      where onchip: "take_idx (query_ball_point tree (treexyz ra dec) r) (np_where (map (\<lambda>c. c \<noteq> None) found))
                     = Inr hpOnChip"
        and cng: "take_idx found (np_where (map (\<lambda>c. c \<noteq> None) found)) = Inr cng"
        and run: "foldE (lookup_append ind) (zip hpOnChip cng) s = Inr s'"
      unfolding footprint_pointing_def
      by (auto simp: ebind_Inr Let_def AllChips split: if_splits prod.splits)
    have "cng = filter (\<lambda>c. c \<noteq> None) found" using cng by (rule take_idx_np_where)
    then have "list_all (chip_ok (chipsToUse s)) cng"
      by (simp add: list_all_iff chip_ok_def AllChips)
    moreover have "distinct hpOnChip"
      using onchip distinct_query_ball_point distinct_np_where by (rule take_idx_distinct)
    ultimately show ?thesis using run by blast
  next
    case (ChipList allow)
    from assms False obtain tree r found cn hp hpOnChip cng
      where a: "take_idx found (np_where (map (\<lambda>c. chip_in c allow) found)) = Inr cn"
        and b: "take_idx (query_ball_point tree (treexyz ra dec) r)
                  (np_where (map (\<lambda>c. chip_in c allow) found)) = Inr hp"
        and onchip: "take_idx hp (np_where (map (\<lambda>c. c \<noteq> None) cn)) = Inr hpOnChip"
        and cng: "take_idx cn (np_where (map (\<lambda>c. c \<noteq> None) cn)) = Inr cng"
        and run: "foldE (lookup_append ind) (zip hpOnChip cng) s = Inr s'"
      unfolding footprint_pointing_def
      by (auto simp: ebind_Inr Let_def ChipList split: if_splits prod.splits)
    have "cn = filter (\<lambda>c. chip_in c allow) found" using a by (rule take_idx_np_where)
    moreover have "cng = filter (\<lambda>c. c \<noteq> None) cn" using cng by (rule take_idx_np_where)
    ultimately have "list_all (chip_ok (chipsToUse s)) cng"
      by (simp add: list_all_iff chip_ok_def ChipList)
    moreover have dhp: "distinct hp"
      using b distinct_query_ball_point distinct_np_where by (rule take_idx_distinct)
    have "distinct hpOnChip"
      using onchip dhp distinct_np_where by (rule take_idx_distinct)
    ultimately show ?thesis using run by blast
  qed
qed

lemma entry_ok_Suc: "entry_ok allow k xs cs \<Longrightarrow> entry_ok allow (Suc k) xs cs"
  by (erule entry_ok_mono) simp

lemma lookup_inv_mono: "lookup_inv k s \<Longrightarrow> k \<le> k' \<Longrightarrow> lookup_inv k' s"
  unfolding lookup_inv_def pending_inv_def
  by (auto intro: entry_ok_mono)

lemma pending_inv_weaken: "lookup_inv k s \<Longrightarrow> pending_inv k T s"
  unfolding lookup_inv_def pending_inv_def
  by (auto intro!: entry_ok_Suc)

lemma pending_inv_done: "pending_inv k {} s \<Longrightarrow> lookup_inv (Suc k) s"
  unfolding lookup_inv_def pending_inv_def by simp

lemma footprint_pointing_inv:
  assumes run: "footprint_pointing f (ind, ra, dec, rot, mjd) s = Inr s'"
    and inv: "lookup_inv ind s"
  shows "lookup_inv (Suc ind) s' \<and> same_config s s'"
proof -
  from footprint_pointing_Inr [OF run]
  consider "s' = s"
    | hp cs where "distinct hp" "list_all (chip_ok (chipsToUse s)) cs"
        "foldE (lookup_append ind) (zip hp cs) s = Inr s'"
    by blast
  then show ?thesis
  proof cases
    case 1
    then show ?thesis using inv by (auto intro: lookup_inv_mono same_config_refl)
  next
    case 2
    have d: "distinct (map fst (zip hp cs))"
      using 2(1) by (simp add: map_fst_zip_take)
    have c: "list_all (\<lambda>p. chip_ok (chipsToUse s) (snd p)) (zip hp cs)"
      using 2(2) by (auto simp: list_all_iff dest: set_zip_rightD)
    have p: "pending_inv ind (fst ` set (zip hp cs)) s"
      using inv by (rule pending_inv_weaken)
    from inner_loop_inv [OF 2(3) d c p] show ?thesis
      by (auto intro: pending_inv_done)
  qed
qed

lemma outer_loop_inv:
  "foldE (footprint_pointing f) (zip [k..<n] rows) s = Inr s' \<Longrightarrow> lookup_inv k s \<Longrightarrow>
   lookup_inv (max k n) s' \<and> same_config s s'"
proof (induction rows arbitrary: k s)
  case Nil
  then show ?case by (auto intro: lookup_inv_mono same_config_refl)
next
  case (Cons row rows)
  show ?case
  proof (cases "k < n")
    case False
    then show ?thesis using Cons.prems by (auto intro: lookup_inv_mono same_config_refl)
  next
    case True
    obtain ra dec rot mjd where row: "row = (ra, dec, rot, mjd)" by (cases row) auto
    have upt: "[k..<n] = k # [Suc k..<n]" using True by (simp add: upt_conv_Cons)
    from Cons.prems(1) obtain s1
      where s1: "footprint_pointing f (k, ra, dec, rot, mjd) s = Inr s1"
        and rest: "foldE (footprint_pointing f) (zip [Suc k..<n] rows) s1 = Inr s'"
      by (auto simp: upt row split: sum.splits)
    from footprint_pointing_inv [OF s1 Cons.prems(2)]
    have i1: "lookup_inv (Suc k) s1" and c1: "same_config s s1" by simp_all
    from Cons.IH [OF rest i1]
    have "lookup_inv (max (Suc k) n) s'" and "same_config s1 s'" by simp_all
    moreover have "max (Suc k) n = max k n" using True by simp
    ultimately show ?thesis using c1 by (auto intro: same_config_trans)
  qed
qed

lemma buildTree_Inr:
  "buildTree s ra dec leaf = Inr s' \<Longrightarrow> \<exists>t. s' = s\<lparr>opsimtree := Some t\<rparr>"
  by (auto simp: buildTree_def ebind_Inr Let_def split: if_splits prod.splits)

lemma presliceFootprint_inv:
  assumes "presliceFootprint f s simData = Inr s'"
  shows "lookup_inv (length simData) s' \<and> nslice s' = nslice s \<and> chipsToUse s' = chipsToUse s"
proof -
  from assms obtain n s2 rows
    where n: "nslice s = Some n"
      and tree: "\<exists>t. s2 = s\<lparr>sliceLookup := Some (replicate n []),
                             chipNames := Some (replicate n []), opsimtree := Some t\<rparr>"
      and run: "foldE (footprint_pointing f) (zip [0..<length simData] rows) s2 = Inr s'"
    unfolding presliceFootprint_def
    by (auto simp: ebind_Inr Let_def split: option.splits dest!: buildTree_Inr)
  from tree n have "lookup_inv 0 s2"
    by (auto simp: lookup_inv_def pending_inv_def entry_ok_def)
  from outer_loop_inv [OF run this]
  have "lookup_inv (length simData) s'" and c: "same_config s2 s'" by simp_all
  moreover have "nslice s' = nslice s" "chipsToUse s' = chipsToUse s"
    using same_config_fields(1,2) [OF c] tree by auto
  ultimately show ?thesis by simp
qed

lemma lookup_inv_D:
  "lookup_inv k s \<Longrightarrow>
   \<exists>lk cn. sliceLookup s = Some lk \<and> chipNames s = Some cn \<and> nslice s = Some (length lk) \<and>
     length cn = length lk \<and> (\<forall>i<length lk. entry_ok (chipsToUse s) k (lk ! i) (cn ! i))"
  by (simp add: lookup_inv_def pending_inv_def)

lemma upt4: "[0..<4] = [0, 1, 2, 3]"
  by code_simp

lemma sqrt2_less_2: "sqrt 2 < (2::real)"
  using real_sqrt_less_mono [of 2 4] by simp

lemma example_footprint_run:
  "presliceFootprint example_chip_lookup example_slicer example_simData = Inr example_built"
  using pi_gt_zero sqrt2_less_2
  by (simp add: presliceFootprint_def example_slicer_def example_simData_def example_built_def
        example_chip_lookup_def ebind_def getitem_def np_array_def buildTree_def
        treexyz_array_def np_mul_def kdtree_new_def footprint_pointing_def treexyz_def
        attr_def query_ball_point_def euclid_def take_idx_def np_where_def chip_in_def
        lookup_append_def upt4 Let_def numeral_2_eq_2 numeral_3_eq_3)

lemma example_built_tables:
  "nslice example_built = Some 2"
  "sliceLookup example_built = Some [[0, 3], []]"
  "chipNames example_built = Some [[Some ''R22_S11'', Some ''R22_S11''], []]"
  "chipsToUse example_built = ChipList [''R22_S11'']"
  by (simp_all add: example_built_def example_slicer_def)

text \<open>
  C5. In footprint mode, once the lookup table is built, every slice point has as many
  chip names as observation indices: \<^verbatim>\<open>len(sliceLookup[i]) == len(chipNames[i])\<close>.
\<close>

theorem footprint_parallel_lengths:
  assumes "presliceFootprint chipNameFromRaDec s simData = Inr s'"
  shows "\<exists>n lk cn. nslice s' = Some n \<and> sliceLookup s' = Some lk \<and> chipNames s' = Some cn \<and>
           length lk = n \<and> length cn = n \<and> (\<forall>i<n. length (lk ! i) = length (cn ! i))"
proof -
  from presliceFootprint_inv [OF assms] have "lookup_inv (length simData) s'" by simp
  from lookup_inv_D [OF this] show ?thesis
    by (auto simp: entry_ok_def)
qed

theorem footprint_parallel_lengths_witness:
  "presliceFootprint example_chip_lookup example_slicer example_simData = Inr example_built \<and>
   sliceLookup example_built = Some [[0, 3], []] \<and>
   chipNames example_built = Some [[Some ''R22_S11'', Some ''R22_S11''], []] \<and>
   length ([[0, 3], []] ! 0 :: nat list) = length ([[Some ''R22_S11'', Some ''R22_S11''], []] ! 0)"
  using footprint_parallel_lengths [OF example_footprint_run] example_footprint_run
  by (simp add: example_built_tables)

text \<open>
  C3. In footprint mode, once the lookup table is built, the chip name stored at any
  position of any slice point's entry is never \<^verbatim>\<open>None\<close>, and it is one of the
  configured chips when \<^verbatim>\<open>chipNames\<close> is a list rather than \<^verbatim>\<open>'all'\<close>.
\<close>

theorem footprint_chip_names_valid:
  assumes "presliceFootprint chipNameFromRaDec s simData = Inr s'"
  shows "\<exists>n lk cn. nslice s' = Some n \<and> sliceLookup s' = Some lk \<and> chipNames s' = Some cn \<and>
           length lk = n \<and> length cn = n \<and>
           (\<forall>i<n. \<forall>j<length (lk ! i).
              j < length (cn ! i) \<and> cn ! i ! j \<noteq> None \<and>
              (\<forall>allow. chipsToUse s = ChipList allow \<longrightarrow>
                 (\<exists>name. cn ! i ! j = Some name \<and> name \<in> set allow)))"
proof -
  from presliceFootprint_inv [OF assms]
  have inv: "lookup_inv (length simData) s'" and ch: "chipsToUse s' = chipsToUse s" by simp_all
  from lookup_inv_D [OF inv] obtain lk cn
    where t: "sliceLookup s' = Some lk" "chipNames s' = Some cn" "nslice s' = Some (length lk)"
      "length cn = length lk"
      and ent: "\<And>i. i < length lk \<Longrightarrow> entry_ok (chipsToUse s) (length simData) (lk ! i) (cn ! i)"
    by (auto simp: ch)
  have "j < length (cn ! i) \<and> cn ! i ! j \<noteq> None \<and>
        (\<forall>allow. chipsToUse s = ChipList allow \<longrightarrow>
           (\<exists>name. cn ! i ! j = Some name \<and> name \<in> set allow))"
    if i: "i < length lk" and j: "j < length (lk ! i)" for i j
  proof -
    from ent [OF i] have len: "length (lk ! i) = length (cn ! i)"
      and ok: "list_all (chip_ok (chipsToUse s)) (cn ! i)"
      by (simp_all add: entry_ok_def)
    have jc: "j < length (cn ! i)" using j len by simp
    then have "chip_ok (chipsToUse s) (cn ! i ! j)"
      using ok by (simp add: list_all_length)
    then show ?thesis using jc
      by (auto simp: chip_ok_def chip_in_def split: option.splits)
  qed
  then show ?thesis using t by simp
qed

theorem footprint_chip_names_valid_witness:
  "presliceFootprint example_chip_lookup example_slicer example_simData = Inr example_built \<and>
   chipNames example_built = Some [[Some ''R22_S11'', Some ''R22_S11''], []] \<and>
   chipsToUse example_slicer = ChipList [''R22_S11''] \<and>
   [[Some ''R22_S11'', Some ''R22_S11''], []] ! 0 ! 1 \<noteq> (None :: string option) \<and>
   ''R22_S11'' \<in> set [''R22_S11'']"
  using footprint_chip_names_valid [OF example_footprint_run] example_footprint_run
  by (simp add: example_built_tables) (simp add: example_slicer_def)

text \<open>
  C4. In footprint mode, once the lookup table is built, the observation indices of
  every slice point's entry are in non-decreasing order of observation position.
\<close>

theorem footprint_lookup_sorted:
  assumes "presliceFootprint chipNameFromRaDec s simData = Inr s'"
  shows "\<exists>n lk. nslice s' = Some n \<and> sliceLookup s' = Some lk \<and> length lk = n \<and>
           (\<forall>i<n. sorted (lk ! i))"
proof -
  from presliceFootprint_inv [OF assms] have "lookup_inv (length simData) s'" by simp
  from lookup_inv_D [OF this] show ?thesis
    by (auto simp: entry_ok_def)
qed

theorem footprint_lookup_sorted_witness:
  "presliceFootprint example_chip_lookup example_slicer example_simData = Inr example_built \<and>
   sliceLookup example_built = Some [[0, 3], []] \<and> sorted ([[0, 3], []] ! 0 :: nat list)"
  using footprint_lookup_sorted [OF example_footprint_run] example_footprint_run
  by (simp add: example_built_tables)

text \<open>
  C10. In footprint mode, once the lookup table is built, the observation indices of
  every slice point's entry are pairwise distinct, hence strictly increasing, and each
  is a position of the observation set.
\<close>

theorem footprint_lookup_distinct_in_range:
  assumes "presliceFootprint chipNameFromRaDec s simData = Inr s'"
  shows "\<exists>n lk. nslice s' = Some n \<and> sliceLookup s' = Some lk \<and> length lk = n \<and>
           (\<forall>i<n. distinct (lk ! i) \<and> sorted_wrt (<) (lk ! i) \<and>
                   (\<forall>x\<in>set (lk ! i). x < length simData))"
proof -
  from presliceFootprint_inv [OF assms] have "lookup_inv (length simData) s'" by simp
  from lookup_inv_D [OF this] show ?thesis
    by (auto simp: entry_ok_def list_all_iff strict_sorted_iff)
qed

theorem footprint_lookup_distinct_in_range_witness:
  "presliceFootprint example_chip_lookup example_slicer example_simData = Inr example_built \<and>
   sliceLookup example_built = Some [[0, 3], []] \<and> distinct ([[0, 3], []] ! 0 :: nat list) \<and>
   (3::nat) < length example_simData"
  using footprint_lookup_distinct_in_range [OF example_footprint_run] example_footprint_run
  by (simp add: example_built_tables) (simp add: example_simData_def)

section \<open>Setting up on an empty observation set\<close>

lemma as_array_np_array: "as_array (np_array xs) = Inr xs"
  by (simp add: np_array_def list_all_iff comp_def)

lemma foldE_Nil_zip: "foldE f (zip [0..<0] rows) s = Inr s"
  by simp

lemma example_rad: "rad (setRad example_slicer (radius example_slicer)) = rad example_slicer"
proof -
  have r: "radians 90 = pi / 2" by (simp add: radians_def)
  have "cos (radians 90) = 0" unfolding r by simp
  then show ?thesis by (simp add: rad_setRad example_slicer_def)
qed

lemma example_setup_run:
  "setupSlicer example_chip_lookup () example_slicer example_simData None = Inr example_built"
proof -
  have "setRad example_slicer (radius example_slicer) = example_slicer"
    using example_rad by (simp add: setRad_def treexyz_def)
  moreover have "setupLSSTCamera () example_slicer = example_slicer"
    by (simp add: setupLSSTCamera_def example_slicer_def)
  moreover have "useCamera example_slicer" by (simp add: example_slicer_def)
  ultimately show ?thesis
    by (simp add: setupSlicer_def example_footprint_run)
qed

lemma setRad_fields:
  "useCamera (setRad s r) = useCamera s" "latLonDeg (setRad s r) = latLonDeg s"
  "leafsize (setRad s r) = leafsize s" "nslice (setRad s r) = nslice s"
  "slicePoints (setRad s r) = slicePoints s"
  by (simp_all add: setRad_def treexyz_def)

lemma runMaps_fields:
  "useCamera (runMaps s ms d) = useCamera s" "latLonDeg (runMaps s ms d) = latLonDeg s"
  "leafsize (runMaps s ms d) = leafsize s" "nslice (runMaps s ms d) = nslice s"
  by (simp_all add: runMaps_def)

lemma buildTree_empty:
  "buildTree s [] [] leaf = Inl (ValueError ''SimDataRA and Dec should have length greater than 0.'')"
  by (simp add: buildTree_def treexyz_array_def np_mul_def ebind_def)

lemma buildTree_ok:
  assumes "ras \<noteq> []" "length decs = length ras" "\<forall>v\<in>set ras. \<bar>v\<bar> \<le> 2 * pi"
    "\<forall>v\<in>set decs. \<bar>v\<bar> \<le> 2 * pi" "1 \<le> leaf"
  shows "\<exists>t. buildTree s ras decs leaf = Inr (s\<lparr>opsimtree := Some t\<rparr>)"
proof -
  have "\<not> (\<exists>v\<in>set ras. \<bar>v\<bar> > 2 * pi)" "\<not> (\<exists>v\<in>set decs. \<bar>v\<bar> > 2 * pi)"
    using assms(3,4) by (auto simp: not_less)
  then have ok: "\<not> (list_ex (\<lambda>v. \<bar>v\<bar> > pi * 2.0) ras \<or> list_ex (\<lambda>v. \<bar>v\<bar> > pi * 2.0) decs)"
    by (simp only: out_of_range_iff) simp
  have ne: "decs \<noteq> []" using assms(1,2) by auto
  have leaf: "\<not> leaf < 1" using assms(5) by simp
  show ?thesis
    unfolding buildTree_def
    by (simp only: ok if_False)
       (auto simp add: ebind_def treexyz_array_def np_mul_def kdtree_new_def Let_def
          assms(1,2) ne leaf)
qed

text \<open>
  C2 as the code has it. With an empty observation set \<^verbatim>\<open>setupSlicer\<close> raises the
  "length greater than 0" ValueError when the camera footprint is not used, and
  \<^verbatim>\<open>_buildTree\<close> raises it for an empty point sequence. With the camera footprint the
  tree is built over the slice points, not the observations: over a non-empty set of
  slice points with coordinates in range, \<^verbatim>\<open>setupSlicer\<close> on an empty observation
  set succeeds and leaves an empty entry for every slice point.
\<close>

theorem setupSlicer_empty_observations:
  "(\<not> useCamera s \<longrightarrow>
      setupSlicer chipNameFromRaDec mapper_camera s [] maps
        = Inl (ValueError ''SimDataRA and Dec should have length greater than 0.'')) \<and>
   buildTree s [] [] leaf = Inl (ValueError ''SimDataRA and Dec should have length greater than 0.'') \<and>
   (useCamera s \<and> nslice s = Some n \<and>
    map_of (slicePoints s) ''ra'' = Some (np_array ras) \<and>
    map_of (slicePoints s) ''dec'' = Some (np_array decs) \<and>
    ras \<noteq> [] \<and> length decs = length ras \<and>
    (\<forall>v\<in>set ras. \<bar>v\<bar> \<le> 2 * pi) \<and> (\<forall>v\<in>set decs. \<bar>v\<bar> \<le> 2 * pi) \<and> 1 \<le> leafsize s \<longrightarrow>
      (\<exists>s'. setupSlicer chipNameFromRaDec mapper_camera s [] None = Inr s' \<and>
            sliceLookup s' = Some (replicate n []) \<and> chipNames s' = Some (replicate n [])))"
proof (intro conjI impI)
  assume "\<not> useCamera s"
  then show "setupSlicer chipNameFromRaDec mapper_camera s [] maps
             = Inl (ValueError ''SimDataRA and Dec should have length greater than 0.'')"
    by (cases maps) (simp_all add: setupSlicer_def Let_def setRad_fields runMaps_fields buildTree_empty)
next
  show "buildTree s [] [] leaf
        = Inl (ValueError ''SimDataRA and Dec should have length greater than 0.'')"
    by (rule buildTree_empty)
next
  assume h: "useCamera s \<and> nslice s = Some n \<and>
    map_of (slicePoints s) ''ra'' = Some (np_array ras) \<and>
    map_of (slicePoints s) ''dec'' = Some (np_array decs) \<and>
    ras \<noteq> [] \<and> length decs = length ras \<and>
    (\<forall>v\<in>set ras. \<bar>v\<bar> \<le> 2 * pi) \<and> (\<forall>v\<in>set decs. \<bar>v\<bar> \<le> 2 * pi) \<and> 1 \<le> leafsize s"
  define s0 where "s0 = setupLSSTCamera mapper_camera (setRad s (radius s))"
  define s1 where "s1 = s0\<lparr>sliceLookup := Some (replicate n []), chipNames := Some (replicate n [])\<rparr>"
  have f: "nslice s0 = Some n" "slicePoints s1 = slicePoints s" "leafsize s1 = leafsize s"
    using h by (simp_all add: s0_def s1_def setupLSSTCamera_def setRad_fields)
  from h obtain t where t: "buildTree s1 ras decs (leafsize s) = Inr (s1\<lparr>opsimtree := Some t\<rparr>)"
    using buildTree_ok [of ras decs "leafsize s" s1] by blast
  have "presliceFootprint chipNameFromRaDec s0 [] = Inr (s1\<lparr>opsimtree := Some t\<rparr>)"
    using h t f unfolding s1_def
    by (simp add: presliceFootprint_def ebind_def getitem_def as_array_np_array Let_def)
  moreover have "setupSlicer chipNameFromRaDec mapper_camera s [] None
                 = presliceFootprint chipNameFromRaDec s0 []"
    using h by (simp add: setupSlicer_def Let_def setRad_fields s0_def)
  ultimately show "\<exists>s'. setupSlicer chipNameFromRaDec mapper_camera s [] None = Inr s' \<and>
            sliceLookup s' = Some (replicate n []) \<and> chipNames s' = Some (replicate n [])"
    by (simp add: s1_def)
qed

theorem setupSlicer_empty_observations_witness:
  "setupSlicer example_chip_lookup () (example_slicer\<lparr>useCamera := False\<rparr>) [] None
     = Inl (ValueError ''SimDataRA and Dec should have length greater than 0.'') \<and>
   (\<exists>s'. setupSlicer example_chip_lookup () example_slicer [] None = Inr s' \<and>
         sliceLookup s' = Some (replicate 2 []) \<and> chipNames s' = Some (replicate 2 []))"
proof -
  have a: "\<not> useCamera (example_slicer\<lparr>useCamera := False\<rparr>)" by simp
  have b: "useCamera example_slicer \<and> nslice example_slicer = Some 2 \<and>
    map_of (slicePoints example_slicer) ''ra'' = Some (np_array [0, pi]) \<and>
    map_of (slicePoints example_slicer) ''dec'' = Some (np_array [0, 0]) \<and>
    [0, pi] \<noteq> [] \<and> length [0::real, 0] = length [0, pi] \<and>
    (\<forall>v\<in>set [0, pi]. \<bar>v\<bar> \<le> 2 * pi) \<and> (\<forall>v\<in>set [0::real, 0]. \<bar>v\<bar> \<le> 2 * pi) \<and>
    1 \<le> leafsize example_slicer"
    using pi_gt_zero by (simp add: example_slicer_def)
  show ?thesis
    using a b
      setupSlicer_empty_observations
        [where s = "example_slicer\<lparr>useCamera := False\<rparr>" and chipNameFromRaDec = example_chip_lookup
           and mapper_camera = "()" and maps = None]
      setupSlicer_empty_observations
        [where s = example_slicer and chipNameFromRaDec = example_chip_lookup
           and mapper_camera = "()" and n = 2 and ras = "[0, pi]" and decs = "[0, 0]"]
    by blast
qed

theorem setupSlicer_empty_footprint_counterexample:
  "useCamera example_slicer \<and>
   map_sum id sliceLookup (setupSlicer example_chip_lookup () example_slicer [] None)
     = Inr (Some [[], []])"
  using pi_gt_zero
  by (simp add: setupSlicer_def setRad_def setupLSSTCamera_def presliceFootprint_def
        example_slicer_def ebind_def getitem_def np_array_def buildTree_def treexyz_array_def
        np_mul_def kdtree_new_def treexyz_def Let_def numeral_2_eq_2)

section \<open>Querying a slice point\<close>

lemma same_config_useCamera: "same_config s s' \<Longrightarrow> useCamera s' = useCamera s"
proof -
  assume "same_config s s'"
  then have e: "s' = s\<lparr>sliceLookup := sliceLookup s', chipNames := chipNames s'\<rparr>"
    by (simp add: same_config_def)
  show ?thesis by (subst e) simp
qed

lemma presliceFootprint_useCamera:
  assumes "presliceFootprint f s simData = Inr s'"
  shows "useCamera s' = useCamera s"
proof -
  from assms obtain n s2 rows
    where tree: "\<exists>t. s2 = s\<lparr>sliceLookup := Some (replicate n []),
                             chipNames := Some (replicate n []), opsimtree := Some t\<rparr>"
      and n: "nslice s = Some n"
      and run: "foldE (footprint_pointing f) (zip [0..<length simData] rows) s2 = Inr s'"
    unfolding presliceFootprint_def
    by (auto simp: ebind_Inr Let_def split: option.splits dest!: buildTree_Inr)
  from tree n have "lookup_inv 0 s2"
    by (auto simp: lookup_inv_def pending_inv_def entry_ok_def)
  from outer_loop_inv [OF run this] have "same_config s2 s'" by simp
  then show ?thesis using tree by (auto dest: same_config_useCamera)
qed

text \<open>
  A successful \<^verbatim>\<open>setupSlicer\<close> leaves a slicer that is ready to be queried: always
  in footprint mode, and otherwise when the subclass has stored \<^verbatim>\<open>nslice\<close>
  coordinates.
\<close>

lemma setupSlicer_footprint:
  assumes "useCamera s"
  shows "\<exists>s0. useCamera s0 \<and>
           setupSlicer f cam s simData maps = presliceFootprint f s0 simData"
proof (cases maps)
  case None
  show ?thesis
    by (rule exI [of _ "setupLSSTCamera cam (setRad s (radius s))"])
       (simp add: setupSlicer_def None Let_def setRad_fields assms setupLSSTCamera_def)
next
  case (Some ms)
  define s1 where "s1 = runMaps
      (if cacheSize s \<noteq> 0 \<and> length ms > 0
       then s\<lparr>warnings := warnings s @
              [''Warning:  Loading maps but cache on.'' @
               ''Should probably set useCache=False in slicer.'']\<rparr>
       else s) ms simData"
  have u: "useCamera s1" using assms by (simp add: s1_def runMaps_fields)
  have "setupSlicer f cam s simData maps
        = presliceFootprint f (setupLSSTCamera cam (setRad s1 (radius s1))) simData"
    unfolding setupSlicer_def Some option.case s1_def [symmetric]
    using u by (simp add: Let_def setRad_fields)
  moreover have "useCamera (setupLSSTCamera cam (setRad s1 (radius s1)))"
    using u by (simp add: setupLSSTCamera_def setRad_fields)
  ultimately show ?thesis by blast
qed

lemma setupSlicer_footprint_queryable:
  assumes "useCamera s" "setupSlicer f cam s simData maps = Inr s'"
  shows "\<exists>n. queryable s' n"
proof -
  from setupSlicer_footprint [OF assms(1), of f cam simData maps] assms(2)
  obtain s0 where cam: "useCamera s0" and run: "presliceFootprint f s0 simData = Inr s'"
    by auto
  from presliceFootprint_inv [OF run] have "lookup_inv (length simData) s'" by simp
  from lookup_inv_D [OF this] obtain lk cn
    where "sliceLookup s' = Some lk" "chipNames s' = Some cn" "nslice s' = Some (length lk)"
      "length cn = length lk" by blast
  moreover have "useCamera s'" using presliceFootprint_useCamera [OF run] cam by simp
  ultimately have "queryable s' (length lk)" by (simp add: queryable_def)
  then show ?thesis ..
qed

lemma setupSlicer_tree_queryable:
  assumes "\<not> useCamera s" "setupSlicer f cam s simData None = Inr s'"
    and "nslice s = Some n" "coord_len s ''ra'' = Some n" "coord_len s ''dec'' = Some n"
  shows "queryable s' n"
proof -
  from assms(1,2) obtain leaf ras decs
    where "buildTree (setRad s (radius s)) ras decs leaf = Inr s'"
    by (auto simp: setupSlicer_def Let_def setRad_fields split: if_splits)
  from buildTree_Inr [OF this] obtain t where s': "s' = (setRad s (radius s))\<lparr>opsimtree := Some t\<rparr>"
    by blast
  show ?thesis
    using assms(1,3,4,5)
    by (simp add: queryable_def coord_len_def s' setRad_fields rad_setRad)
qed

lemma py_index_in: "0 \<le> i \<Longrightarrow> i < int (length xs) \<Longrightarrow> py_index xs i = Inr (xs ! nat i)"
  by (simp add: py_index_def)

lemma py_index_out:
  "int (length xs) \<le> i \<or> i < - int (length xs) \<Longrightarrow> py_index xs i = Inl IndexError"
  by (auto simp: py_index_def)

lemma py_index_neg:
  "- int (length xs) \<le> i \<Longrightarrow> i < 0 \<Longrightarrow> py_index xs i = py_index xs (int (length xs) + i)"
  by (simp add: py_index_def)

lemma as_array_Inr:
  assumes "as_array v = Inr xs"
  shows "\<exists>vs. v = Arr vs \<and> length vs = length xs \<and> (\<forall>j<length vs. vs ! j = Num (xs ! j))"
proof (cases v)
  case (Arr vs)
  with assms have a: "list_all (\<lambda>v. case v of Num r \<Rightarrow> True | _ \<Rightarrow> False) vs"
    and xs: "xs = map (\<lambda>v. case v of Num r \<Rightarrow> r | _ \<Rightarrow> 0) vs"
    by (auto split: if_splits)
  have "vs ! j = Num (xs ! j)" if "j < length vs" for j
  proof -
    have "case vs ! j of Num r \<Rightarrow> True | _ \<Rightarrow> False"
      using a that by (simp add: list_all_length)
    then show ?thesis using that by (cases "vs ! j") (simp_all add: xs)
  qed
  then show ?thesis using Arr xs by simp
qed (use assms in simp_all)

lemma keyShape_Arr:
  assumes "keyShape v = n" "0 < n"
  shows "\<exists>vs. v = Arr vs \<and> length vs = n"
proof (cases v)
  case (Arr vs)
  then show ?thesis using assms by (cases vs) (simp_all add: keyShape_def)
qed (use assms in \<open>simp_all add: keyShape_def\<close>)

lemma coord_len_Some:
  assumes "coord_len s key = Some n"
  shows "\<exists>vs xs. getitem (slicePoints s) key = Inr (Arr vs) \<and> length vs = n \<and> length xs = n \<and>
           (\<forall>j<n. vs ! j = Num (xs ! j))"
proof -
  from assms obtain v xs where v: "map_of (slicePoints s) key = Some v"
    and xs: "as_array v = Inr xs" and n: "length xs = n"
    by (auto simp: coord_len_def split: option.splits sum.splits)
  from as_array_Inr [OF xs] obtain vs where "v = Arr vs" "length vs = length xs"
    "\<forall>j<length vs. vs ! j = Num (xs ! j)" by blast
  then show ?thesis using v n by (auto simp: getitem_def)
qed

lemma foldE_cong:
  "(\<And>x s. x \<in> set xs \<Longrightarrow> f x s = g x s) \<Longrightarrow> foldE f xs s = foldE g xs s"
  by (induction xs arbitrary: s) (simp_all split: sum.splits)

lemma bind_key_neg:
  assumes "nslice s = Some n" "- int n \<le> i" "i < 0"
  shows "bind_key s i key sp = bind_key s (int n + i) key sp"
proof (cases "getitem (slicePoints s) key")
  case (Inl e)
  then show ?thesis by (simp add: bind_key_def ebind_def)
next
  case (Inr v)
  show ?thesis
  proof (cases "keyShape v = n")
    case False
    then show ?thesis using Inr assms(1) by (simp add: bind_key_def ebind_def)
  next
    case True
    have "0 < n" using assms(2,3) by simp
    from keyShape_Arr [OF True this] obtain vs where vs: "v = Arr vs" "length vs = n" by blast
    have "py_index vs i = py_index vs (int n + i)"
      using py_index_neg [of vs i] assms(2,3) vs(2) by simp
    then show ?thesis using Inr by (simp add: bind_key_def ebind_def subscript_def vs(1))
  qed
qed

lemma bind_key_in:
  assumes "nslice s = Some n" "0 \<le> i" "i < int n" "map_of (slicePoints s) key = Some v"
  shows "bind_key s i key sp = Inr (sp(key \<mapsto> bound_value n i v))"
proof (cases "keyShape v = n")
  case False
  then show ?thesis using assms(1,4)
    by (simp add: bind_key_def ebind_def getitem_def bound_value_def)
next
  case True
  have "0 < n" using assms(2,3) by simp
  from keyShape_Arr [OF True this] obtain vs where vs: "v = Arr vs" "length vs = n" by blast
  have "py_index vs i = Inr (vs ! nat i)"
    using py_index_in [of i vs] assms(2,3) vs(2) by simp
  then show ?thesis using assms(1,4) True
    by (simp add: bind_key_def ebind_def getitem_def bound_value_def subscript_def vs(1))
qed

lemma foldE_bind_key:
  assumes "nslice s = Some n" "0 \<le> i" "i < int n"
  shows "set ks \<subseteq> fst ` set (slicePoints s) \<Longrightarrow>
         foldE (bind_key s i) ks sp0 =
           Inr (\<lambda>k. if k \<in> set ks then map_option (bound_value n i) (map_of (slicePoints s) k)
                    else sp0 k)"
proof (induction ks arbitrary: sp0)
  case Nil
  then show ?case by simp
next
  case (Cons key ks)
  from Cons.prems obtain v where v: "map_of (slicePoints s) key = Some v"
    by (cases "map_of (slicePoints s) key") (auto simp: map_of_eq_None_iff)
  have step: "bind_key s i key sp0 = Inr (sp0(key \<mapsto> bound_value n i v))"
    using assms v by (rule bind_key_in)
  have "foldE (bind_key s i) ks (sp0(key \<mapsto> bound_value n i v)) =
          Inr (\<lambda>k. if k \<in> set ks then map_option (bound_value n i) (map_of (slicePoints s) k)
                   else (sp0(key \<mapsto> bound_value n i v)) k)"
    using Cons.prems by (intro Cons.IH) simp
  then show ?case using v by (auto simp: step intro!: ext)
qed

lemma find_indices_out:
  assumes "queryable s n" "int n \<le> i \<or> i < - int n"
  shows "find_indices s i = Inl IndexError"
proof (cases "useCamera s")
  case True
  with assms(1) obtain lk where lk: "sliceLookup s = Some lk" "length lk = n"
    by (auto simp: queryable_def split: option.splits)
  have "py_index lk i = Inl IndexError" using py_index_out [of lk i] assms(2) lk(2) by simp
  then show ?thesis using True lk(1) by (simp add: find_indices_def ebind_def attr_def)
next
  case False
  with assms(1) have "coord_len s ''ra'' = Some n" by (simp add: queryable_def)
  from coord_len_Some [OF this] obtain vs where vs: "getitem (slicePoints s) ''ra'' = Inr (Arr vs)"
    "length vs = n" by blast
  have "py_index vs i = Inl IndexError" using py_index_out [of vs i] assms(2) vs(2) by simp
  then show ?thesis using False vs(1) by (simp add: find_indices_def ebind_def subscript_def)
qed

lemma find_indices_neg:
  assumes "queryable s n" "- int n \<le> i" "i < 0"
  shows "find_indices s i = find_indices s (int n + i)"
proof (cases "useCamera s")
  case True
  with assms(1) obtain lk cn where t: "sliceLookup s = Some lk" "length lk = n"
    "chipNames s = Some cn" "length cn = n"
    by (auto simp: queryable_def split: option.splits)
  have "py_index lk i = py_index lk (int n + i)" "py_index cn i = py_index cn (int n + i)"
    using py_index_neg [of lk i] py_index_neg [of cn i] assms(2,3) t(2,4) by simp_all
  then show ?thesis using True t(1,3) by (simp add: find_indices_def ebind_def attr_def)
next
  case False
  with assms(1) have "coord_len s ''ra'' = Some n" "coord_len s ''dec'' = Some n"
    by (simp_all add: queryable_def)
  from coord_len_Some [OF this(1)] coord_len_Some [OF this(2)]
  obtain rs ds where rs: "getitem (slicePoints s) ''ra'' = Inr (Arr rs)" "length rs = n"
    and ds: "getitem (slicePoints s) ''dec'' = Inr (Arr ds)" "length ds = n" by blast
  have "py_index rs i = py_index rs (int n + i)" "py_index ds i = py_index ds (int n + i)"
    using py_index_neg [of rs i] py_index_neg [of ds i] assms(2,3) rs(2) ds(2) by simp_all
  then show ?thesis using False rs(1) ds(1)
    by (simp add: find_indices_def ebind_def subscript_def)
qed

lemma find_indices_in:
  assumes "queryable s n" "0 \<le> i" "i < int n"
  shows "\<exists>ix sp0. find_indices s i = Inr (ix, sp0)"
proof (cases "useCamera s")
  case True
  with assms(1) obtain lk cn where t: "sliceLookup s = Some lk" "length lk = n"
    "chipNames s = Some cn" "length cn = n"
    by (auto simp: queryable_def split: option.splits)
  have "py_index lk i = Inr (lk ! nat i)" "py_index cn i = Inr (cn ! nat i)"
    using py_index_in [of i lk] py_index_in [of i cn] assms(2,3) t(2,4) by simp_all
  then show ?thesis using True t(1,3) by (simp add: find_indices_def ebind_def attr_def)
next
  case False
  with assms(1) have c: "coord_len s ''ra'' = Some n" "coord_len s ''dec'' = Some n"
    and o: "opsimtree s \<noteq> None" "rad s \<noteq> None"
    by (simp_all add: queryable_def)
  from coord_len_Some [OF c(1)] coord_len_Some [OF c(2)]
  obtain rs rx ds dx where rs: "getitem (slicePoints s) ''ra'' = Inr (Arr rs)" "length rs = n"
    "\<forall>j<n. rs ! j = Num (rx ! j)"
    and ds: "getitem (slicePoints s) ''dec'' = Inr (Arr ds)" "length ds = n"
    "\<forall>j<n. ds ! j = Num (dx ! j)" by blast
  have j: "nat i < n" using assms(2,3) by simp
  have "py_index rs i = Inr (Num (rx ! nat i))" "py_index ds i = Inr (Num (dx ! nat i))"
    using py_index_in [of i rs] py_index_in [of i ds] assms(2,3) rs(2,3) ds(2,3) j by simp_all
  then show ?thesis using False rs(1) ds(1) o
    by (auto simp: find_indices_def ebind_def subscript_def num_of_def attr_def
             split: prod.splits)
qed

lemma sliceSimData_in:
  assumes "queryable s n" "0 \<le> i" "i < int n"
  shows "\<exists>ix sp0. sliceSimData s i =
           Inr \<lparr>idxs = ix,
                slicePoint = (\<lambda>k. if k \<in> fst ` set (slicePoints s)
                                  then map_option (bound_value n i) (map_of (slicePoints s) k)
                                  else sp0 k)\<rparr>"
proof -
  from find_indices_in [OF assms] obtain ix sp0 where f: "find_indices s i = Inr (ix, sp0)"
    by blast
  have n: "nslice s = Some n" using assms(1) by (simp add: queryable_def)
  have "foldE (bind_key s i) (map fst (slicePoints s)) sp0 =
          Inr (\<lambda>k. if k \<in> set (map fst (slicePoints s))
                   then map_option (bound_value n i) (map_of (slicePoints s) k) else sp0 k)"
    using n assms(2,3) by (rule foldE_bind_key) simp
  then have "sliceSimData s i =
          Inr \<lparr>idxs = ix,
               slicePoint = (\<lambda>k. if k \<in> fst ` set (slicePoints s)
                                 then map_option (bound_value n i) (map_of (slicePoints s) k)
                                 else sp0 k)\<rparr>"
    using f by (simp add: sliceSimData_def ebind_def)
  then show ?thesis by blast
qed

lemma sliceSimData_neg:
  assumes "queryable s n" "- int n \<le> i" "i < 0"
  shows "sliceSimData s i = sliceSimData s (int n + i)"
proof -
  have n: "nslice s = Some n" using assms(1) by (simp add: queryable_def)
  have "bind_key s i = bind_key s (int n + i)"
    using bind_key_neg [OF n assms(2,3)] by (intro ext)
  then show ?thesis
    using find_indices_neg [OF assms] by (simp add: sliceSimData_def)
qed

lemma example_built_queryable: "queryable example_built 2"
  by (simp add: queryable_def example_built_def example_slicer_def)

text \<open>
  C1 as the code has it. The query function raises IndexError for an index at or
  above \<^verbatim>\<open>nslice\<close> and for one below \<^verbatim>\<open>-nslice\<close>. An index from
  \<^verbatim>\<open>-nslice\<close> up to \<^verbatim>\<open>-1\<close> counts from the end, as Python indexing does: the
  query returns what it returns for \<^verbatim>\<open>nslice + index\<close>.
\<close>

theorem sliceSimData_index_error:
  assumes "queryable s n"
  shows "(int n \<le> islice \<or> islice < - int n \<longrightarrow> sliceSimData s islice = Inl IndexError) \<and>
         (- int n \<le> islice \<and> islice < 0 \<longrightarrow>
            sliceSimData s islice = sliceSimData s (int n + islice) \<and>
            (\<exists>r. sliceSimData s islice = Inr r))"
proof (intro conjI impI)
  assume "int n \<le> islice \<or> islice < - int n"
  from find_indices_out [OF assms this]
  show "sliceSimData s islice = Inl IndexError"
    by (simp add: sliceSimData_def ebind_def)
next
  assume h: "- int n \<le> islice \<and> islice < 0"
  then show eq: "sliceSimData s islice = sliceSimData s (int n + islice)"
    using sliceSimData_neg [OF assms] by simp
  have "0 \<le> int n + islice" "int n + islice < int n" using h by simp_all
  from sliceSimData_in [OF assms this] show "\<exists>r. sliceSimData s islice = Inr r"
    using eq by auto
qed

theorem sliceSimData_index_error_witness:
  "queryable example_built 2 \<and>
   sliceSimData example_built 2 = Inl IndexError \<and>
   sliceSimData example_built (- 3) = Inl IndexError \<and>
   sliceSimData example_built (- 1) = sliceSimData example_built 1"
  using sliceSimData_index_error [OF example_built_queryable, of 2]
    sliceSimData_index_error [OF example_built_queryable, of "- 3"]
    sliceSimData_index_error [OF example_built_queryable, of "- 1"]
    example_built_queryable
  by simp

theorem sliceSimData_negative_index_counterexample:
  "setupSlicer example_chip_lookup () example_slicer example_simData None = Inr example_built \<and>
   nslice example_built = Some 2 \<and>
   sliceSimData example_built (- 1) =
     Inr \<lparr>idxs = [],
          slicePoint = [''chipNames'' \<mapsto> Arr [], ''sid'' \<mapsto> Num 1, ''ra'' \<mapsto> Num pi,
                        ''dec'' \<mapsto> Num 0, ''bins'' \<mapsto> np_array [1, 2, 3]]\<rparr>"
  using example_setup_run
  by (simp add: example_built_tables sliceSimData_def find_indices_def bind_key_def ebind_def
        attr_def py_index_def getitem_def subscript_def keyShape_def np_array_def
        example_built_def example_slicer_def)

text \<open>
  C6. For a slicer that is set up, an index in \<^verbatim>\<open>[0, nslice)\<close> and a key of
  \<^verbatim>\<open>slicePoints\<close>, the query succeeds and its \<^verbatim>\<open>slicePoint\<close> dictionary maps the
  key to element \<^verbatim>\<open>islice\<close> of the stored value when the leading dimension of that
  value is \<^verbatim>\<open>nslice\<close>, and to the whole value otherwise; a scalar has leading
  dimension 0 and is passed whole.
\<close>

theorem sliceSimData_metadata:
  assumes "queryable s n" "0 \<le> islice" "islice < int n"
    and "map_of (slicePoints s) key = Some v"
  shows "\<exists>r. sliceSimData s islice = Inr r \<and>
           (keyShape v = n \<longrightarrow>
              (\<exists>vs. v = Arr vs \<and> length vs = n \<and> slicePoint r key = Some (vs ! nat islice))) \<and>
           (keyShape v \<noteq> n \<longrightarrow> slicePoint r key = Some v) \<and>
           (np_shape v = [] \<longrightarrow> keyShape v = 0 \<and> slicePoint r key = Some v)"
proof -
  from sliceSimData_in [OF assms(1-3)] obtain ix sp0
    where r: "sliceSimData s islice =
                Inr \<lparr>idxs = ix,
                     slicePoint = (\<lambda>k. if k \<in> fst ` set (slicePoints s)
                                       then map_option (bound_value n islice) (map_of (slicePoints s) k)
                                       else sp0 k)\<rparr>"
    by blast
  have key: "key \<in> fst ` set (slicePoints s)"
    using assms(4) by (metis map_of_eq_None_iff option.distinct(1))
  have pos: "0 < n" using assms(2,3) by simp
  have a: "\<exists>vs. v = Arr vs \<and> length vs = n \<and> bound_value n islice v = vs ! nat islice"
    if "keyShape v = n"
  proof -
    from keyShape_Arr [OF that pos] obtain vs where "v = Arr vs" "length vs = n" by blast
    then show ?thesis using that by (simp add: bound_value_def)
  qed
  have b: "bound_value n islice v = v" if "keyShape v \<noteq> n"
    using that by (simp add: bound_value_def)
  have c: "keyShape v = 0" if "np_shape v = []"
    using that by (simp add: keyShape_def)
  show ?thesis
    using r key assms(4) a b c pos by auto
qed

theorem sliceSimData_metadata_witness:
  "queryable example_built 2 \<and>
   map_of (slicePoints example_built) ''ra'' = Some (Arr [Num 0, Num pi]) \<and>
   map_of (slicePoints example_built) ''bins'' = Some (Arr [Num 1, Num 2, Num 3]) \<and>
   (\<exists>r. sliceSimData example_built 1 = Inr r \<and> slicePoint r ''ra'' = Some (Num pi)) \<and>
   (\<exists>r. sliceSimData example_built 1 = Inr r \<and>
        slicePoint r ''bins'' = Some (Arr [Num 1, Num 2, Num 3]))"
proof -
  have ra: "map_of (slicePoints example_built) ''ra'' = Some (Arr [Num 0, Num pi])"
    and bins: "map_of (slicePoints example_built) ''bins'' = Some (Arr [Num 1, Num 2, Num 3])"
    by (simp_all add: example_built_def example_slicer_def np_array_def)
  have k: "keyShape (Arr [Num 0, Num pi]) = 2" "keyShape (Arr [Num 1, Num 2, Num 3]) \<noteq> 2"
    by (simp_all add: keyShape_def)
  show ?thesis
    using sliceSimData_metadata [OF example_built_queryable _ _ ra, of 1]
      sliceSimData_metadata [OF example_built_queryable _ _ bins, of 1]
      example_built_queryable ra bins k
    by auto
qed

end
